theory Spec2Isabelle
  imports Complex_Main "HOL-Library.Sublist"
begin

section \<open>Python primitives used by the pipeline\<close>

text \<open>
  A Python \<open>str\<close> is modelled as a \<open>string\<close>: a list of characters, one \<open>char\<close> per
  code point (code points below 256).  Python integers are \<open>int\<close>.  A Python \<open>float\<close>
  is modelled by the real number it denotes.
\<close>

definition is_space :: "char \<Rightarrow> bool" where
  \<comment> \<open>\<open>str.isspace\<close> on one character; the same test decides \<open>\s\<close>, \<open>split()\<close> and \<open>strip()\<close>.\<close>
  "is_space c =
     (let n = (of_char c :: nat)
      in (9 \<le> n \<and> n \<le> 13) \<or> (28 \<le> n \<and> n \<le> 32) \<or> n = 133 \<or> n = 160)"

definition is_upper :: "char \<Rightarrow> bool" where
  \<comment> \<open>the character class \<open>[A-Z]\<close>\<close>
  "is_upper c = (let n = (of_char c :: nat) in 65 \<le> n \<and> n \<le> 90)"

definition is_terminal :: "char \<Rightarrow> bool" where
  \<comment> \<open>the character class \<open>[.!?]\<close>\<close>
  "is_terminal c = (c = CHR ''.'' \<or> c = CHR ''!'' \<or> c = CHR ''?'')"

abbreviation non_space :: "char \<Rightarrow> bool" where
  "non_space c \<equiv> \<not> is_space c"

function split_ws :: "string \<Rightarrow> string list" where
  \<comment> \<open>\<open>text.split()\<close>: the maximal runs of non-whitespace characters, in order\<close>
  "split_ws [] = []"
| "split_ws (c # cs) =
     (if is_space c then split_ws cs
      else (c # takeWhile non_space cs) # split_ws (dropWhile non_space cs))"
  by pat_completeness auto
termination
  by (relation "measure length") (auto simp: less_Suc_eq_le length_dropWhile_le)

definition strip :: "string \<Rightarrow> string" where
  \<comment> \<open>\<open>text.strip()\<close>\<close>
  "strip s = rev (dropWhile is_space (rev (dropWhile is_space s)))"

fun join :: "string \<Rightarrow> string list \<Rightarrow> string" where
  \<comment> \<open>\<open>sep.join(parts)\<close>\<close>
  "join sep [] = []"
| "join sep [p] = p"
| "join sep (p # q # ps) = p @ sep @ join sep (q # ps)"

definition py_slice :: "'a list \<Rightarrow> int \<Rightarrow> int \<Rightarrow> 'a list" where
  \<comment> \<open>\<open>xs[start:end]\<close>: a negative bound counts from the end, then both are clamped\<close>
  "py_slice xs start end =
     (let n = int (length xs);
          lo = (if start < 0 then max 0 (start + n) else min start n);
          hi = (if end < 0 then max 0 (end + n) else min end n)
      in take (nat (hi - lo)) (drop (nat lo) xs))"

section \<open>Chunker\<close>

subsection \<open>Word-count mode\<close>

text \<open>
  The \<open>while\<close> loop of \<open>chunk_by_words\<close>.  The loop may run forever, so the model is a
  partial function: \<open>None\<close> means that the call does not return.  The \<open>break\<close> is the
  branch that returns the chunks collected so far.
\<close>

partial_function (option) words_loop ::
  "string list \<Rightarrow> int \<Rightarrow> int \<Rightarrow> int \<Rightarrow> string list \<Rightarrow> string list option" where
  "words_loop words chunk_size overlap start chunks =
     (if start < int (length words) then
        (let end = start + chunk_size;
             chunk_words = py_slice words start end;
             chunks' = chunks @ [join '' '' chunk_words];
             start' = end - overlap
         in if start' \<ge> int (length words) - overlap then Some chunks'
            else words_loop words chunk_size overlap start' chunks')
      else Some chunks)"

definition chunk_by_words :: "string \<Rightarrow> int \<Rightarrow> int \<Rightarrow> string list option" where
  "chunk_by_words text chunk_size overlap = words_loop (split_ws text) chunk_size overlap 0 []"

subsection \<open>Sentence-aware mode\<close>

text \<open>
  \<open>sentence_pattern.split(text)\<close> for the pattern \<open>(?<=[.!?])\s+(?=[A-Z])\<close>.  A match starts
  right after a terminal punctuation mark, so it starts a whitespace run, and it must be
  followed by a capital letter, so it covers the whole run.  \<open>re_split\<close> scans the text
  with the piece read so far and a flag telling whether the previous character is a
  terminal mark.
\<close>

function re_split :: "bool \<Rightarrow> string \<Rightarrow> string \<Rightarrow> string list" where
  "re_split after_terminal piece [] = [piece]"
| "re_split after_terminal piece (c # cs) =
     (if after_terminal \<and> is_space c \<and>
         (case dropWhile is_space cs of [] \<Rightarrow> False | d # _ \<Rightarrow> is_upper d)
      then piece # re_split False [] (dropWhile is_space cs)
      else re_split (is_terminal c) (piece @ [c]) cs)"
  by pat_completeness auto
termination
  by (relation "measure (\<lambda>(a, p, cs). length cs)")
     (auto simp: less_Suc_eq_le length_dropWhile_le)

definition sentence_split :: "string \<Rightarrow> string list" where
  "sentence_split text = re_split False [] text"

definition clean_sentences :: "string \<Rightarrow> string list" where
  \<comment> \<open>\<open>[s.strip() for s in sentences if s.strip()]\<close>\<close>
  "clean_sentences text = filter (\<lambda>s. s \<noteq> []) (map strip (sentence_split text))"

text \<open>
  The inner loop over \<open>reversed(current_chunk)\<close>: sentences are put in front of
  \<open>overlap_sentences\<close> while the overlap budget allows it; the first one that does not
  fit ends the loop.
\<close>

fun overlap_loop :: "int \<Rightarrow> string list \<Rightarrow> string list \<Rightarrow> int \<Rightarrow> string list \<times> int" where
  "overlap_loop overlap [] overlap_sentences overlap_word_count =
     (overlap_sentences, overlap_word_count)"
| "overlap_loop overlap (s # rest) overlap_sentences overlap_word_count =
     (let s_words = int (length (split_ws s))
      in if overlap_word_count + s_words \<le> overlap
         then overlap_loop overlap rest (s # overlap_sentences) (overlap_word_count + s_words)
         else (overlap_sentences, overlap_word_count))"

text \<open>The loop over the sentences; its state is \<open>(chunks, current_chunk, current_word_count)\<close>.\<close>

fun sentences_loop ::
  "int \<Rightarrow> int \<Rightarrow> string list \<Rightarrow> string list \<Rightarrow> string list \<Rightarrow> int
     \<Rightarrow> string list \<times> string list \<times> int" where
  "sentences_loop target_size overlap [] chunks current_chunk current_word_count =
     (chunks, current_chunk, current_word_count)"
| "sentences_loop target_size overlap (sentence # rest) chunks current_chunk current_word_count =
     (let sentence_words = int (length (split_ws sentence))
      in if current_word_count + sentence_words > target_size \<and> current_chunk \<noteq> [] then
           (case overlap_loop overlap (rev current_chunk) [] 0 of
              (overlap_sentences, overlap_word_count) \<Rightarrow>
                sentences_loop target_size overlap rest
                  (chunks @ [join '' '' current_chunk])
                  (overlap_sentences @ [sentence])
                  (overlap_word_count + sentence_words))
         else sentences_loop target_size overlap rest chunks
                (current_chunk @ [sentence]) (current_word_count + sentence_words))"

definition chunk_by_sentences :: "string \<Rightarrow> int \<Rightarrow> int \<Rightarrow> string list" where
  "chunk_by_sentences text target_size overlap =
     (let sentences = clean_sentences text
      in if sentences = [] then (if strip text \<noteq> [] then [text] else [])
         else (case sentences_loop target_size overlap sentences [] [] 0 of
                 (chunks, current_chunk, current_word_count) \<Rightarrow>
                   if current_chunk \<noteq> [] then chunks @ [join '' '' current_chunk]
                   else chunks))"

text \<open>
  The same loop with a ghost state: every chunk is kept as the pair of the sentences
  carried over from the chunk before it and the sentences it adds.  The current chunk of
  \<open>sentences_loop\<close> is \<open>carried @ fresh\<close>.
\<close>

fun pieces_loop ::
  "int \<Rightarrow> int \<Rightarrow> string list \<Rightarrow> (string list \<times> string list) list \<Rightarrow> string list
     \<Rightarrow> string list \<Rightarrow> int
     \<Rightarrow> (string list \<times> string list) list \<times> string list \<times> string list \<times> int" where
  "pieces_loop target_size overlap [] finished carried fresh current_word_count =
     (finished, carried, fresh, current_word_count)"
| "pieces_loop target_size overlap (sentence # rest) finished carried fresh current_word_count =
     (let sentence_words = int (length (split_ws sentence))
      in if current_word_count + sentence_words > target_size \<and> carried @ fresh \<noteq> [] then
           (case overlap_loop overlap (rev (carried @ fresh)) [] 0 of
              (overlap_sentences, overlap_word_count) \<Rightarrow>
                pieces_loop target_size overlap rest
                  (finished @ [(carried, fresh)])
                  overlap_sentences [sentence]
                  (overlap_word_count + sentence_words))
         else pieces_loop target_size overlap rest finished
                carried (fresh @ [sentence]) (current_word_count + sentence_words))"

definition chunk_pieces :: "int \<Rightarrow> int \<Rightarrow> string list \<Rightarrow> (string list \<times> string list) list" where
  "chunk_pieces target_size overlap sentences =
     (case pieces_loop target_size overlap sentences [] [] [] 0 of
        (finished, carried, fresh, current_word_count) \<Rightarrow>
          if carried @ fresh \<noteq> [] then finished @ [(carried, fresh)] else finished)"

subsection \<open>The public entry point\<close>

record settings =
  CHUNK_SIZE :: int
  CHUNK_OVERLAP :: int
  TOP_K_RESULTS :: int

definition default_settings :: settings where
  \<comment> \<open>the values used when the environment sets none\<close>
  "default_settings = \<lparr>CHUNK_SIZE = 500, CHUNK_OVERLAP = 50, TOP_K_RESULTS = 5\<rparr>"

definition py_or :: "int option \<Rightarrow> int \<Rightarrow> int" where
  \<comment> \<open>\<open>a or b\<close> for \<open>a\<close> an integer or \<open>None\<close>: \<open>None\<close> and \<open>0\<close> are falsy\<close>
  "py_or a b = (case a of None \<Rightarrow> b | Some v \<Rightarrow> if v = 0 then b else v)"


definition chunk_text ::
  "settings \<Rightarrow> string \<Rightarrow> int option \<Rightarrow> int option \<Rightarrow> bool \<Rightarrow> string list option" where
  "chunk_text st text chunk_size chunk_overlap respect_sentences =
     (if text = [] \<or> strip text = [] then Some []
      else
        (let chunk_size = py_or chunk_size (CHUNK_SIZE st);
             chunk_overlap = py_or chunk_overlap (CHUNK_OVERLAP st)
         in if respect_sentences then Some (chunk_by_sentences text chunk_size chunk_overlap)
            else chunk_by_words text chunk_size chunk_overlap))"

section \<open>Retriever and context assembler\<close>

datatype error =
    InitializationFailure   \<comment> \<open>the embedding model cannot be loaded\<close>
  | ConnectivityFailure     \<comment> \<open>the vector index or the completion service is unreachable\<close>
  | GenerationFailure       \<comment> \<open>the completion service fails\<close>

text \<open>
  A retrieved chunk is a dictionary; the code reads it with \<open>chunk.get(key, default)\<close>.
  A field is \<open>None\<close> when the dictionary has no such key.  The keys \<open>id\<close> and \<open>metadata\<close>
  are never read and are left out.
\<close>

record chunk =
  content :: "string option"
  source_file :: "string option"
  chunk_index :: "int option"
  similarity :: "real option"

definition get_or :: "'a option \<Rightarrow> 'a \<Rightarrow> 'a" where
  \<comment> \<open>\<open>chunk.get(key, default)\<close>\<close>
  "get_or entry dflt = (case entry of None \<Rightarrow> dflt | Some v \<Rightarrow> v)"

text \<open>
  The collaborators the core consumes: the embedding model, the vector index and the
  completion service.  Each may fail; a streamed answer is the fragments emitted and the
  failure, if any, that ends the stream.
\<close>

record collaborators =
  embed_text :: "string \<Rightarrow> error + real list"
  search_similar :: "real list \<Rightarrow> int \<Rightarrow> string option \<Rightarrow> error + chunk list"
  generate_answer :: "string \<Rightarrow> string \<Rightarrow> real \<Rightarrow> error + string"
  generate_answer_stream :: "string \<Rightarrow> string \<Rightarrow> real \<Rightarrow> string list \<times> error option"

definition retrieve_relevant_chunks ::
  "collaborators \<Rightarrow> settings \<Rightarrow> string \<Rightarrow> int option \<Rightarrow> string option \<Rightarrow> real
     \<Rightarrow> error + chunk list" where
  "retrieve_relevant_chunks env st query top_k source_filter min_similarity =
     (let top_k = py_or top_k (TOP_K_RESULTS st)
      in case embed_text env query of
           Inl e \<Rightarrow> Inl e
         | Inr query_embedding \<Rightarrow>
             (case search_similar env query_embedding top_k source_filter of
                Inl e \<Rightarrow> Inl e
              | Inr results \<Rightarrow>
                  Inr (if min_similarity > 0
                       then filter (\<lambda>r. get_or (similarity r) 0 \<ge> min_similarity) results
                       else results)))"

subsection \<open>Number formatting\<close>

definition digit :: "nat \<Rightarrow> char" where
  \<comment> \<open>the decimal digit of a number below ten\<close>
  "digit n = ''0123456789'' ! n"

fun str_nat :: "nat \<Rightarrow> string" where
  \<comment> \<open>\<open>str(i)\<close> for a non-negative integer\<close>
  "str_nat n = (if n < 10 then [digit n] else str_nat (n div 10) @ [digit (n mod 10)])"

declare str_nat.simps [simp del]

definition round_half_even :: "real \<Rightarrow> int" where
  \<comment> \<open>the nearest integer, a tie going to the even neighbour\<close>
  "round_half_even x =
     (let f = \<lfloor>x\<rfloor>; d = x - of_int f
      in if d < 1 / 2 then f else if d > 1 / 2 then f + 1 else if even f then f else f + 1)"

definition format_2f :: "real \<Rightarrow> string" where
  \<comment> \<open>the format \<open>{x:.2f}\<close>: sign, integer part, point, two decimals\<close>
  "format_2f x =
     (let n = nat (round_half_even (\<bar>x\<bar> * 100))
      in (if x < 0 then ''-'' else []) @ str_nat (n div 100) @ ''.''
           @ [digit (n mod 100 div 10), digit (n mod 10)])"

definition py_round :: "real \<Rightarrow> nat \<Rightarrow> real" where
  \<comment> \<open>\<open>round(x, ndigits)\<close>: the decimal with \<open>ndigits\<close> places nearest to \<open>x\<close>\<close>
  "py_round x ndigits = of_int (round_half_even (x * 10 ^ ndigits)) / 10 ^ ndigits"

subsection \<open>Context and citations\<close>

definition no_context :: string where
  "no_context = ''No relevant information found in the knowledge base.''"

definition separator :: string where
  \<comment> \<open>\<open>"\n\n---\n\n"\<close>\<close>
  "separator = [CHR 0x0A, CHR 0x0A] @ ''---'' @ [CHR 0x0A, CHR 0x0A]"

text \<open>The loop over \<open>enumerate(chunks, 1)\<close>, appending to \<open>context_parts\<close>.\<close>

fun format_loop :: "bool \<Rightarrow> nat \<Rightarrow> chunk list \<Rightarrow> string list \<Rightarrow> string list" where
  "format_loop include_sources i [] context_parts = context_parts"
| "format_loop include_sources i (chunk # rest) context_parts =
     (let content = get_or (content chunk) [];
          source = get_or (source_file chunk) ''Unknown'';
          similarity = get_or (similarity chunk) 0
      in if include_sources then
           format_loop include_sources (i + 1) rest
             (context_parts @
                [''[Source '' @ str_nat i @ '': '' @ source @ '' (relevance: ''
                   @ format_2f similarity @ '')]'' @ [CHR 0x0A] @ content])
         else format_loop include_sources (i + 1) rest (context_parts @ [content]))"

definition format_context :: "chunk list \<Rightarrow> bool \<Rightarrow> string" where
  "format_context chunks include_sources =
     (if chunks = [] then no_context
      else join separator (format_loop include_sources 1 chunks []))"

text \<open>A citation is the dictionary \<open>get_sources\<close> builds, with these four keys.\<close>

record citation =
  cite_source_file :: string
  cite_chunk_index :: int
  cite_similarity :: real
  preview :: string

definition get_sources :: "chunk list \<Rightarrow> citation list" where
  "get_sources chunks =
     map (\<lambda>chunk.
            \<lparr>cite_source_file = get_or (source_file chunk) ''Unknown'',
             cite_chunk_index = get_or (chunk_index chunk) 0,
             cite_similarity = py_round (get_or (similarity chunk) 0) 3,
             preview = take 100 (get_or (content chunk) []) @ ''...''\<rparr>)
         chunks"



section \<open>Pipeline\<close>

record QueryResult =
  result_query :: string
  answer :: string
  sources :: "citation list"
  context_used :: string
  chunks_retrieved :: nat

record CDSSPipeline =
  top_k :: int
  temperature :: real
  min_similarity :: real

definition CDSSPipeline_init :: "settings \<Rightarrow> int option \<Rightarrow> real \<Rightarrow> real \<Rightarrow> CDSSPipeline" where
  "CDSSPipeline_init st tk temp min_sim =
     \<lparr>top_k = py_or tk (TOP_K_RESULTS st), temperature = temp, min_similarity = min_sim\<rparr>"

definition fallback_answer :: string where
  "fallback_answer = ''I couldn't find relevant information in my knowledge base to answer this question. Please try rephrasing or consult with a healthcare professional.''"

text \<open>
  Calls of the completion service are observable: every call is appended to a log that
  is passed through the pipeline.
\<close>

datatype gen_call =
    Generate string string real
  | GenerateStream string string real

definition query ::
  "collaborators \<Rightarrow> settings \<Rightarrow> CDSSPipeline \<Rightarrow> string \<Rightarrow> string option \<Rightarrow> gen_call list
     \<Rightarrow> (error + QueryResult) \<times> gen_call list" where
  "query env st self question source_filter calls =
     (case retrieve_relevant_chunks env st question (Some (top_k self)) source_filter
             (min_similarity self) of
        Inl e \<Rightarrow> (Inl e, calls)
      | Inr chunks \<Rightarrow>
          if chunks = [] then
            (Inr \<lparr>result_query = question, answer = fallback_answer, sources = [],
                  context_used = [], chunks_retrieved = 0\<rparr>, calls)
          else
            (let context = format_context chunks True;
                 srcs = get_sources chunks;
                 calls' = calls @ [Generate question context (temperature self)]
             in case generate_answer env question context (temperature self) of
                  Inl e \<Rightarrow> (Inl e, calls')
                | Inr ans \<Rightarrow>
                    (Inr \<lparr>result_query = question, answer = ans, sources = srcs,
                          context_used = context, chunks_retrieved = length chunks\<rparr>, calls')))"

text \<open>
  The generator \<open>query_stream\<close>, consumed to its end: the events it yields, the failure
  that ends it if there is one, and the log.
\<close>

datatype event =
    ErrorEvent string
  | SourcesEvent "citation list"
  | AnswerChunk string
  | Done

definition query_stream ::
  "collaborators \<Rightarrow> settings \<Rightarrow> CDSSPipeline \<Rightarrow> string \<Rightarrow> string option \<Rightarrow> gen_call list
     \<Rightarrow> (event list \<times> error option) \<times> gen_call list" where
  "query_stream env st self question source_filter calls =
     (case retrieve_relevant_chunks env st question (Some (top_k self)) source_filter 0 of
        Inl e \<Rightarrow> (([], Some e), calls)
      | Inr chunks \<Rightarrow>
          if chunks = [] then (([ErrorEvent ''No relevant information found.''], None), calls)
          else
            (let context = format_context chunks True;
                 srcs = get_sources chunks;
                 calls' = calls @ [GenerateStream question context (temperature self)]
             in case generate_answer_stream env question context (temperature self) of
                  (fragments, Some e) \<Rightarrow>
                    ((SourcesEvent srcs # map AnswerChunk fragments, Some e), calls')
                | (fragments, None) \<Rightarrow>
                    ((SourcesEvent srcs # map AnswerChunk fragments @ [Done], None), calls')))"

section \<open>Example collaborators\<close>

text \<open>
  Two concrete sets of collaborators on which the definitions are run: an index that
  answers every search with the same two chunks, and an empty index.
\<close>

definition chunk_high :: chunk where
  "chunk_high =
     \<lparr>content = Some ''Pathogenic variants cause disease.'', source_file = Some ''acmg.pdf'',
      chunk_index = Some 0, similarity = Some (9 / 10)\<rparr>"

definition chunk_low :: chunk where
  "chunk_low =
     \<lparr>content = Some ''Benign variants are common.'', source_file = Some ''acmg.pdf'',
      chunk_index = Some 1, similarity = Some (3 / 10)\<rparr>"

definition index_example :: collaborators where
  "index_example =
     \<lparr>embed_text = (\<lambda>q. Inr [1, 0]),
      search_similar = (\<lambda>v k f. Inr [chunk_high, chunk_low]),
      generate_answer = (\<lambda>q c t. Inr ''answer''),
      generate_answer_stream = (\<lambda>q c t. ([''ans'', ''wer''], None))\<rparr>"

definition empty_index :: collaborators where
  "empty_index =
     \<lparr>embed_text = (\<lambda>q. Inr [1, 0]),
      search_similar = (\<lambda>v k f. Inr []),
      generate_answer = (\<lambda>q c t. Inr ''answer''),
      generate_answer_stream = (\<lambda>q c t. ([''ans'', ''wer''], None))\<rparr>"

definition strict_pipeline :: CDSSPipeline where
  \<comment> \<open>a pipeline constructed with \<open>min_similarity = 0.5\<close>\<close>
  "strict_pipeline = \<lparr>top_k = 5, temperature = 3 / 10, min_similarity = 1 / 2\<rparr>"

section \<open>Ghost state of the sentence loop\<close>

text \<open>
  \<open>carried_ok prev ps\<close>: in the list \<open>ps\<close> of chunks, given as pairs of carried and fresh
  sentences, the carried sentences of every chunk are a suffix of the sentences of the
  chunk before it; \<open>prev\<close> are the sentences of the chunk before the first one.
\<close>

fun carried_ok :: "string list \<Rightarrow> (string list \<times> string list) list \<Rightarrow> bool" where
  "carried_ok prev [] = True"
| "carried_ok prev ((carried, fresh) # ps) = (suffix carried prev \<and> carried_ok (carried @ fresh) ps)"

abbreviation chunk_of :: "string list \<times> string list \<Rightarrow> string" where
  "chunk_of p \<equiv> join '' '' (fst p @ snd p)"

section \<open>Properties of the chunker\<close>

subsection \<open>Word-count mode and its loop guard\<close>

text \<open>
  When \<open>overlap \<ge> chunk_size\<close> the window does not move forward.  The guard after the
  update of \<open>start\<close> compares \<open>start\<close> with \<open>len(words) - overlap\<close>; it ends the loop only
  when the first window already reaches the end of the text.  The state
  \<open>start + chunk_size < len(words)\<close> is kept by every iteration, so the loop never ends.
\<close>

lemma words_loop_stuck:
  assumes "words_loop ws cs ov st ch = Some y"
  shows "\<not> (0 < cs \<and> cs \<le> ov \<and> st + cs < int (length ws))"
  using assms
proof (induction ws cs ov st ch y
        rule: words_loop.raw_induct[rotated 1, consumes 1, case_names step])
  case (step f ws cs ov st ch y)
  show ?case
  proof
    assume inv: "0 < cs \<and> cs \<le> ov \<and> st + cs < int (length ws)"
    then have "f ws cs ov (st + cs - ov) (ch @ [join '' '' (py_slice ws st (st + cs))]) = Some y"
      using step(2) by (simp add: Let_def split: if_splits)
    then have "\<not> (0 < cs \<and> cs \<le> ov \<and> (st + cs - ov) + cs < int (length ws))"
      by (rule step(1))
    with inv show False by simp
  qed
qed

lemma chunk_by_words_diverges:
  assumes "0 < chunk_size" "chunk_size \<le> overlap" "chunk_size < int (length (split_ws text))"
  shows "chunk_by_words text chunk_size overlap = None"
proof (cases "chunk_by_words text chunk_size overlap")
  case (Some y)
  then have "words_loop (split_ws text) chunk_size overlap 0 [] = Some y"
    by (simp add: chunk_by_words_def)
  from words_loop_stuck[OF this] assms show ?thesis by simp
qed simp

lemma chunk_by_words_single:
  assumes "0 < chunk_size" "split_ws text \<noteq> []" "int (length (split_ws text)) \<le> chunk_size"
  shows "chunk_by_words text chunk_size overlap = Some [join '' '' (split_ws text)]"
  using assms
  by (simp add: chunk_by_words_def words_loop.simps[of _ _ _ 0] Let_def py_slice_def)

text \<open>
  C1.  The claim: for a non-empty text and positive \<open>target_size\<close> and \<open>overlap\<close> with
  \<open>overlap \<ge> target_size\<close>, word-count chunking terminates and emits the remaining text as
  a final chunk.  The code does not: on the three-word text \<open>a b c\<close> with
  \<open>chunk_size = 1\<close> and \<open>overlap = 1\<close> the call of \<open>chunk_by_words\<close> never returns.
\<close>

theorem chunk_by_words_loops_forever: "chunk_by_words ''a b c'' 1 1 = None"
  by (rule chunk_by_words_diverges) (simp_all add: is_space_def)

subsection \<open>Defaults of the public entry point\<close>

text \<open>
  C4.  The claim: through the public contract with \<open>overlap = 0\<close>, no two adjacent chunks
  share a sentence.  In \<open>chunk_text\<close> the argument \<open>chunk_overlap = 0\<close> is falsy and is
  replaced by the configured overlap (50 by default), so sentences are carried over: the
  three-sentence text below gives three chunks, each repeating the sentences of the one
  before it.
\<close>

theorem chunk_text_overlap_zero_shares:
  "chunk_text default_settings ''A b. C d. E f.'' (Some 2) (Some 0) True
     = Some [''A b.'', ''A b. C d.'', ''A b. C d. E f.'']"
  by (simp add: chunk_text_def chunk_by_sentences_def clean_sentences_def sentence_split_def
        strip_def is_space_def is_upper_def is_terminal_def py_or_def default_settings_def Let_def)



section \<open>Properties of the retriever\<close>

text \<open>
  C7.  With \<open>min_similarity > 0\<close>, and the embedding model and the index answering,
  \<open>retrieve_relevant_chunks\<close> returns normally the search results whose similarity is at
  least \<open>min_similarity\<close>: every returned chunk has such a similarity, the returned chunks
  are a subsequence of the search results (same relative order), and an empty index or a
  threshold that removes every result gives the empty list, not an error.
\<close>

theorem retrieve_filters_in_order:
  assumes "min_sim > 0"
    and "embed_text env question = Inr qe"
    and "search_similar env qe (py_or tk (TOP_K_RESULTS st)) source_filter = Inr results"
  shows "retrieve_relevant_chunks env st question tk source_filter min_sim
           = Inr (filter (\<lambda>r. get_or (similarity r) 0 \<ge> min_sim) results)
         \<and> (\<forall>r \<in> set (filter (\<lambda>r. get_or (similarity r) 0 \<ge> min_sim) results).
               \<exists>s. similarity r = Some s \<and> s \<ge> min_sim)
         \<and> subseq (filter (\<lambda>r. get_or (similarity r) 0 \<ge> min_sim) results) results
         \<and> (results = [] \<longrightarrow>
               retrieve_relevant_chunks env st question tk source_filter min_sim = Inr [])
         \<and> ((\<forall>r \<in> set results. get_or (similarity r) 0 < min_sim) \<longrightarrow>
               retrieve_relevant_chunks env st question tk source_filter min_sim = Inr [])"
proof -
  let ?kept = "filter (\<lambda>r. get_or (similarity r) 0 \<ge> min_sim) results"
  have eq: "retrieve_relevant_chunks env st question tk source_filter min_sim = Inr ?kept"
    using assms by (simp add: retrieve_relevant_chunks_def Let_def)
  have sims: "\<forall>r \<in> set ?kept. \<exists>s. similarity r = Some s \<and> s \<ge> min_sim"
  proof
    fix r assume "r \<in> set ?kept"
    then have ge: "get_or (similarity r) 0 \<ge> min_sim" by simp
    show "\<exists>s. similarity r = Some s \<and> s \<ge> min_sim"
    proof (cases "similarity r")
      case None
      with ge assms(1) show ?thesis by (simp add: get_or_def)
    next
      case (Some s)
      with ge show ?thesis by (simp add: get_or_def)
    qed
  qed
  have sub: "subseq ?kept results" by simp
  have empty: "results = [] \<longrightarrow> ?kept = []" by simp
  have allout: "(\<forall>r \<in> set results. get_or (similarity r) 0 < min_sim) \<longrightarrow> ?kept = []"
    by (auto simp: filter_empty_conv)
  from eq sims sub empty allout show ?thesis by simp
qed

theorem retrieve_filters_in_order_witness:
  "retrieve_relevant_chunks index_example default_settings ''what is pathogenic?'' None None (1 / 2)
     = Inr [chunk_high]
   \<and> retrieve_relevant_chunks empty_index default_settings ''what is pathogenic?'' None None (1 / 2)
     = Inr []"
proof -
  have a: "(1 / 2 :: real) > 0" by simp
  have b: "embed_text index_example ''what is pathogenic?'' = Inr [1, 0]"
    by (simp add: index_example_def)
  have c: "search_similar index_example [1, 0] (py_or None (TOP_K_RESULTS default_settings)) None
        = Inr [chunk_high, chunk_low]"
    by (simp add: index_example_def)
  have b': "embed_text empty_index ''what is pathogenic?'' = Inr [1, 0]"
    by (simp add: empty_index_def)
  have c': "search_similar empty_index [1, 0] (py_or None (TOP_K_RESULTS default_settings)) None
        = Inr []"
    by (simp add: empty_index_def)
  show ?thesis
    using retrieve_filters_in_order[OF a b c] retrieve_filters_in_order[OF a b' c']
    by (simp add: get_or_def chunk_high_def chunk_low_def)
qed

section \<open>Properties of the pipeline\<close>

text \<open>
  C6.  If retrieval returns no chunks, \<open>query\<close> returns normally the result made of the
  question, the fixed fallback answer, no sources, the empty context and the count 0; the
  log of calls of the completion service is unchanged, so no generation call is made.
\<close>

theorem query_no_context_fallback:
  assumes "retrieve_relevant_chunks env st question (Some (top_k self)) source_filter
             (min_similarity self) = Inr []"
  shows "query env st self question source_filter calls =
           (Inr \<lparr>result_query = question, answer = fallback_answer, sources = [],
                 context_used = [], chunks_retrieved = 0\<rparr>, calls)"
  using assms by (simp add: query_def)

theorem query_no_context_fallback_witness:
  "query empty_index default_settings \<lparr>top_k = 5, temperature = 3 / 10, min_similarity = 0\<rparr>
      ''unrelated nonsense query'' None [] =
           (Inr \<lparr>result_query = ''unrelated nonsense query'', answer = fallback_answer,
                 sources = [], context_used = [], chunks_retrieved = 0\<rparr>, [])"
proof -
  have h: "retrieve_relevant_chunks empty_index default_settings ''unrelated nonsense query''
      (Some (top_k \<lparr>top_k = 5, temperature = 3 / 10, min_similarity = 0\<rparr>)) None
      (min_similarity \<lparr>top_k = 5, temperature = 3 / 10, min_similarity = 0\<rparr>) = Inr []"
    by (simp add: retrieve_relevant_chunks_def empty_index_def)
  show ?thesis by (rule query_no_context_fallback[OF h])
qed

text \<open>
  C2.  The claim: \<open>query_stream\<close> retrieves and formats the same chunks as \<open>query\<close> for
  the same question, filter, \<open>top_k\<close> and \<open>min_similarity\<close>.  \<open>query\<close> passes the pipeline's
  \<open>min_similarity\<close> to the retriever; \<open>query_stream\<close> does not, so the retriever runs with
  its default 0.  On a pipeline with \<open>min_similarity = 0.5\<close> and an index that returns
  chunks of similarity 0.9 and 0.3, \<open>query\<close> cites and formats the first chunk only, and
  \<open>query_stream\<close> cites and formats both.
\<close>

theorem query_stream_ignores_min_similarity:
  "query index_example default_settings strict_pipeline ''q'' None [] =
     (Inr \<lparr>result_query = ''q'', answer = ''answer'', sources = get_sources [chunk_high],
           context_used = format_context [chunk_high] True, chunks_retrieved = 1\<rparr>,
      [Generate ''q'' (format_context [chunk_high] True) (3 / 10)])
   \<and> query_stream index_example default_settings strict_pipeline ''q'' None [] =
     (([SourcesEvent (get_sources [chunk_high, chunk_low]),
        AnswerChunk ''ans'', AnswerChunk ''wer'', Done], None),
      [GenerateStream ''q'' (format_context [chunk_high, chunk_low] True) (3 / 10)])
   \<and> get_sources [chunk_high, chunk_low] \<noteq> get_sources [chunk_high]"
proof -
  have r1: "retrieve_relevant_chunks index_example default_settings ''q'' (Some 5) None (1 / 2)
              = Inr [chunk_high]"
    by (simp add: retrieve_relevant_chunks_def index_example_def get_or_def chunk_high_def
          chunk_low_def py_or_def)
  have r2: "retrieve_relevant_chunks index_example default_settings ''q'' (Some 5) None 0
              = Inr [chunk_high, chunk_low]"
    by (simp add: retrieve_relevant_chunks_def index_example_def py_or_def)
  have g: "generate_answer index_example = (\<lambda>q c t. Inr ''answer'')"
    "generate_answer_stream index_example = (\<lambda>q c t. ([''ans'', ''wer''], None))"
    by (simp_all add: index_example_def)
  have q1: "query index_example default_settings strict_pipeline ''q'' None [] =
     (Inr \<lparr>result_query = ''q'', answer = ''answer'', sources = get_sources [chunk_high],
           context_used = format_context [chunk_high] True, chunks_retrieved = 1\<rparr>,
      [Generate ''q'' (format_context [chunk_high] True) (3 / 10)])"
    by (simp add: query_def strict_pipeline_def r1 g Let_def)
  have q2: "query_stream index_example default_settings strict_pipeline ''q'' None [] =
     (([SourcesEvent (get_sources [chunk_high, chunk_low]),
        AnswerChunk ''ans'', AnswerChunk ''wer'', Done], None),
      [GenerateStream ''q'' (format_context [chunk_high, chunk_low] True) (3 / 10)])"
    by (simp add: query_stream_def strict_pipeline_def r2 g Let_def)
  have q3: "get_sources [chunk_high, chunk_low] \<noteq> get_sources [chunk_high]"
    by (simp add: get_sources_def)
  from q1 q2 q3 show ?thesis by simp
qed

section \<open>Properties of the context assembler\<close>


lemma str_nat_digit: "n < 10 \<Longrightarrow> str_nat n = [digit n]"
  by (simp add: str_nat.simps)

lemma format_2f_examples:
  "format_2f (9 / 10) = ''0.90''" "format_2f (3 / 10) = ''0.30''"
  "format_2f (1 / 8) = ''0.12''" "format_2f (3 / 8) = ''0.38''"
  "format_2f (- 1 / 1000) = ''-0.00''"
  by (simp_all add: format_2f_def round_half_even_def str_nat_digit digit_def Let_def)

lemma format_context_example:
  "format_context [chunk_high, chunk_low] True =
     ''[Source 1: acmg.pdf (relevance: 0.90)]'' @ [CHR 0x0A] @ ''Pathogenic variants cause disease.''
       @ [CHR 0x0A, CHR 0x0A] @ ''---'' @ [CHR 0x0A, CHR 0x0A]
       @ ''[Source 2: acmg.pdf (relevance: 0.30)]'' @ [CHR 0x0A] @ ''Benign variants are common.''"
proof -
  have n: "str_nat 1 = ''1''" "str_nat 2 = ''2''" "str_nat (Suc (Suc 0)) = ''2''"
    "str_nat (Suc 0) = ''1''"
    by (simp_all add: str_nat_digit digit_def)
  have "format_loop True 1 [chunk_high, chunk_low] [] =
    [''[Source 1: acmg.pdf (relevance: 0.90)]'' @ [CHR 0x0A] @ ''Pathogenic variants cause disease.'',
     ''[Source 2: acmg.pdf (relevance: 0.30)]'' @ [CHR 0x0A] @ ''Benign variants are common.'']"
    by (simp add: chunk_high_def chunk_low_def get_or_def Let_def format_2f_examples n)
  then show ?thesis
    by (simp add: format_context_def separator_def chunk_high_def)
qed


lemma round_half_even_near: "\<bar>of_int (round_half_even x) - x\<bar> \<le> 1 / 2"
  unfolding round_half_even_def Let_def by (auto; linarith)

lemma py_round_3: "\<bar>py_round x 3 - x\<bar> \<le> 1 / 2000"
proof -
  have "\<bar>of_int (round_half_even (x * 1000)) - x * 1000\<bar> \<le> 1 / 2"
    by (rule round_half_even_near)
  then show ?thesis
    unfolding py_round_def by (simp add: field_simps abs_le_iff)
qed

text \<open>
  C9.  The claim says that the preview ends with an ellipsis only if the content was
  truncated.  The code appends \<open>...\<close> to every preview: a content of 27 characters gets
  a preview of 30.
\<close>

theorem get_sources_short_content_ellipsis:
  "length ''Benign variants are common.'' \<le> 100
   \<and> map preview (get_sources [chunk_low]) = [''Benign variants are common....'']
   \<and> map preview (get_sources [chunk_low]) \<noteq> [''Benign variants are common.'']"
  by (simp add: get_sources_def chunk_low_def get_or_def)

text \<open>
  C9, as amended.  \<open>get_sources\<close> returns one citation per chunk, in the same order; each
  has the chunk's source and position, the similarity rounded to 3 decimals (a multiple
  of 1/1000 at most 1/2000 away from the chunk's similarity), and as preview the first
  100 characters of the content followed by \<open>...\<close>, whether or not the content was longer.
\<close>

theorem get_sources_citations:
  "length (get_sources chunks) = length chunks
   \<and> (\<forall>i < length chunks.
         cite_source_file (get_sources chunks ! i) = get_or (source_file (chunks ! i)) ''Unknown''
       \<and> cite_chunk_index (get_sources chunks ! i) = get_or (chunk_index (chunks ! i)) 0
       \<and> cite_similarity (get_sources chunks ! i) = py_round (get_or (similarity (chunks ! i)) 0) 3
       \<and> (\<exists>k :: int. cite_similarity (get_sources chunks ! i) = of_int k / 1000)
       \<and> \<bar>cite_similarity (get_sources chunks ! i) - get_or (similarity (chunks ! i)) 0\<bar> \<le> 1 / 2000
       \<and> preview (get_sources chunks ! i) = take 100 (get_or (content (chunks ! i)) []) @ ''...'')"
proof -
  have "\<exists>k :: int. py_round x 3 = of_int k / 1000" for x
    unfolding py_round_def by auto
  then show ?thesis
    using py_round_3 by (simp add: get_sources_def)
qed

theorem get_sources_citations_witness:
  "get_sources [chunk_high, chunk_low] ! 1 =
     \<lparr>cite_source_file = ''acmg.pdf'', cite_chunk_index = 1, cite_similarity = 3 / 10,
      preview = ''Benign variants are common....''\<rparr>"
proof -
  have "cite_similarity (get_sources [chunk_high, chunk_low] ! 1) = 3 / 10"
    by (simp add: get_sources_def chunk_low_def get_or_def py_round_def round_half_even_def)
  then show ?thesis
    using get_sources_citations[of "[chunk_high, chunk_low]"]
    by (simp add: chunk_low_def get_or_def)
qed

section \<open>Sentence-aware chunking reconstructs the text\<close>

subsection \<open>Words of a text and of its pieces\<close>

lemma split_ws_append_space:
  "is_space c \<Longrightarrow> split_ws (xs @ c # ys) = split_ws xs @ split_ws ys"
proof (induction xs rule: split_ws.induct)
  case 1
  then show ?case by simp
next
  case (2 x xs)
  show ?case
  proof (cases "is_space x")
    case True
    with 2 show ?thesis by simp
  next
    case False
    have t: "takeWhile non_space (xs @ c # ys) = takeWhile non_space xs"
      using 2(3) by (simp add: takeWhile_tail)
    have d: "dropWhile non_space (xs @ c # ys) = dropWhile non_space xs @ c # ys"
      using 2(3) by (simp add: dropWhile_append3)
    from False 2(2)[OF False 2(3)] show ?thesis by (simp add: t d)
  qed
qed

lemma split_ws_all_space: "(\<forall>c \<in> set ws. is_space c) \<Longrightarrow> split_ws ws = []"
  by (induction ws) simp_all

lemma split_ws_Nil_iff: "split_ws s = [] \<longleftrightarrow> (\<forall>c \<in> set s. is_space c)"
  by (induction s) simp_all

lemma split_ws_dropWhile: "split_ws (dropWhile is_space cs) = split_ws cs"
  by (induction cs) simp_all

lemma split_ws_append_spaces:
  "(\<forall>c \<in> set ws. is_space c) \<Longrightarrow> split_ws (xs @ ws) = split_ws xs"
proof (cases ws)
  case Nil
  then show ?thesis by simp
next
  case (Cons w ws')
  assume a: "\<forall>c \<in> set ws. is_space c"
  with Cons have "is_space w" "\<forall>c \<in> set ws'. is_space c" by simp_all
  then show ?thesis
    using Cons by (simp add: split_ws_append_space split_ws_all_space)
qed

lemma split_ws_strip: "split_ws (strip s) = split_ws s"
proof -
  let ?t = "dropWhile is_space s"
  have "rev (dropWhile is_space (rev ?t)) @ rev (takeWhile is_space (rev ?t)) = ?t"
    by (metis rev_append rev_rev_ident takeWhile_dropWhile_id)
  moreover have "\<forall>c \<in> set (rev (takeWhile is_space (rev ?t))). is_space c"
    by (auto dest: set_takeWhileD)
  ultimately have "split_ws ?t = split_ws (rev (dropWhile is_space (rev ?t)))"
    by (metis split_ws_append_spaces)
  then show ?thesis
    by (simp add: strip_def split_ws_dropWhile)
qed

lemma strip_Nil_iff: "strip s = [] \<longleftrightarrow> split_ws s = []"
proof
  assume "strip s = []"
  then show "split_ws s = []" using split_ws_strip[of s] by simp
next
  assume "split_ws s = []"
  then have "\<forall>c \<in> set s. is_space c" by (simp add: split_ws_Nil_iff)
  then have d: "dropWhile is_space s = []"
    using dropWhile_eq_Nil_conv[of is_space s] by blast
  show "strip s = []" unfolding strip_def d by simp
qed

lemma split_ws_join: "split_ws (join '' '' ss) = concat (map split_ws ss)"
proof (induction "'' ''" ss rule: join.induct)
  case 1
  show ?case by simp
next
  case (2 p)
  show ?case by simp
next
  case (3 p q ps)
  have "is_space CHR '' ''" by (simp add: is_space_def)
  then have "split_ws (p @ CHR '' '' # join '' '' (q # ps)) = split_ws p @ split_ws (join '' '' (q # ps))"
    by (rule split_ws_append_space)
  with 3 show ?case by simp
qed

lemma re_split_words: "concat (map split_ws (re_split b piece cs)) = split_ws (piece @ cs)"
proof (induction b piece cs rule: re_split.induct)
  case (1 b piece)
  show ?case by simp
next
  case (2 b piece c cs)
  show ?case
  proof (cases "b \<and> is_space c \<and> (case dropWhile is_space cs of [] \<Rightarrow> False | d # _ \<Rightarrow> is_upper d)")
    case True
    then have sp: "is_space c" by simp
    from True 2(1) have "concat (map split_ws (re_split b piece (c # cs)))
        = split_ws piece @ split_ws (dropWhile is_space cs)"
      by simp
    also have "\<dots> = split_ws piece @ split_ws cs" by (simp add: split_ws_dropWhile)
    also have "\<dots> = split_ws (piece @ c # cs)" using sp by (simp add: split_ws_append_space)
    finally show ?thesis .
  next
    case False
    with 2(2) show ?thesis by auto
  qed
qed

lemma clean_words: "concat (map split_ws (filter (\<lambda>s. s \<noteq> []) (map strip ps))) = concat (map split_ws ps)"
proof (induction ps)
  case Nil
  show ?case by simp
next
  case (Cons p ps)
  then show ?case
    using strip_Nil_iff[of p] by (simp add: split_ws_strip)
qed

lemma clean_sentences_words: "concat (map split_ws (clean_sentences text)) = split_ws text"
  by (simp add: clean_sentences_def sentence_split_def clean_words re_split_words)

lemma overlap_loop_suffix:
  "overlap_loop ov xs acc n = (os, oc) \<Longrightarrow> \<exists>k. os = rev (take k xs) @ acc"
proof (induction xs arbitrary: acc n)
  case Nil
  then show ?case by simp
next
  case (Cons x xs)
  show ?case
  proof (cases "n + int (length (split_ws x)) \<le> ov")
    case True
    with Cons.prems have "overlap_loop ov xs (x # acc) (n + int (length (split_ws x))) = (os, oc)"
      by (simp add: Let_def)
    from Cons.IH[OF this] obtain k where "os = rev (take k xs) @ x # acc" by blast
    then have "os = rev (take (Suc k) (x # xs)) @ acc" by simp
    then show ?thesis by blast
  next
    case False
    with Cons.prems have "os = acc" by (simp add: Let_def)
    then have "os = rev (take 0 (x # xs)) @ acc" by simp
    then show ?thesis by blast
  qed
qed

lemma overlap_loop_is_suffix:
  assumes "overlap_loop ov (rev cur) [] 0 = (os, oc)"
  shows "suffix os cur"
proof -
  from overlap_loop_suffix[OF assms] obtain k where "os = rev (take k (rev cur))" by auto
  then have "os = drop (length cur - k) cur" by (simp add: rev_take)
  then show ?thesis by (simp add: suffix_drop)
qed

lemma sentences_loop_pieces:
  "sentences_loop t ov ss (map chunk_of fin) (car @ fr) n =
     (case pieces_loop t ov ss fin car fr n of
        (fin', car', fr', n') \<Rightarrow> (map chunk_of fin', car' @ fr', n'))"
proof (induction ss arbitrary: fin car fr n)
  case Nil
  show ?case by simp
next
  case (Cons s ss)
  show ?case
  proof (cases "n + int (length (split_ws s)) > t \<and> car @ fr \<noteq> []")
    case True
    obtain os oc where o: "overlap_loop ov (rev (car @ fr)) [] 0 = (os, oc)"
      by (cases "overlap_loop ov (rev (car @ fr)) [] 0")
    have "sentences_loop t ov (s # ss) (map chunk_of fin) (car @ fr) n =
            sentences_loop t ov ss (map chunk_of (fin @ [(car, fr)])) (os @ [s])
              (oc + int (length (split_ws s)))"
      using True o by (simp add: Let_def)
    also have "\<dots> = (case pieces_loop t ov ss (fin @ [(car, fr)]) os [s] (oc + int (length (split_ws s))) of
        (fin', car', fr', n') \<Rightarrow> (map chunk_of fin', car' @ fr', n'))"
      by (rule Cons.IH)
    also have "pieces_loop t ov ss (fin @ [(car, fr)]) os [s] (oc + int (length (split_ws s)))
        = pieces_loop t ov (s # ss) fin car fr n"
      using True o by (simp add: Let_def)
    finally show ?thesis .
  next
    case False
    have "sentences_loop t ov (s # ss) (map chunk_of fin) (car @ fr) n =
            sentences_loop t ov ss (map chunk_of fin) (car @ (fr @ [s]))
              (n + int (length (split_ws s)))"
      using False by (auto simp: Let_def)
    also have "\<dots> = (case pieces_loop t ov ss fin car (fr @ [s]) (n + int (length (split_ws s))) of
        (fin', car', fr', n') \<Rightarrow> (map chunk_of fin', car' @ fr', n'))"
      by (rule Cons.IH)
    also have "pieces_loop t ov ss fin car (fr @ [s]) (n + int (length (split_ws s)))
        = pieces_loop t ov (s # ss) fin car fr n"
      using False by (auto simp: Let_def)
    finally show ?thesis .
  qed
qed

lemma pieces_loop_fresh:
  "pieces_loop t ov ss fin car fr n = (fin', car', fr', n') \<Longrightarrow>
     concat (map snd fin') @ fr' = concat (map snd fin) @ fr @ ss"
proof (induction ss arbitrary: fin car fr n)
  case Nil
  then show ?case by simp
next
  case (Cons s ss)
  show ?case
  proof (cases "n + int (length (split_ws s)) > t \<and> car @ fr \<noteq> []")
    case True
    obtain os oc where o: "overlap_loop ov (rev (car @ fr)) [] 0 = (os, oc)"
      by (cases "overlap_loop ov (rev (car @ fr)) [] 0")
    from Cons.prems True o
    have "pieces_loop t ov ss (fin @ [(car, fr)]) os [s] (oc + int (length (split_ws s)))
            = (fin', car', fr', n')"
      by (simp add: Let_def)
    from Cons.IH[OF this] show ?thesis by simp
  next
    case False
    with Cons.prems
    have "pieces_loop t ov ss fin car (fr @ [s]) (n + int (length (split_ws s)))
            = (fin', car', fr', n')"
      by (auto simp: Let_def)
    from Cons.IH[OF this] show ?thesis by simp
  qed
qed

lemma carried_ok_fresh:
  "carried_ok p (ps @ [(c, f)]) \<Longrightarrow> carried_ok p (ps @ [(c, f')])"
  by (induction ps arbitrary: p) auto

lemma carried_ok_snoc:
  "carried_ok p (ps @ [(c, f)]) \<Longrightarrow> suffix c' (c @ f) \<Longrightarrow> carried_ok p (ps @ [(c, f), (c', f')])"
  by (induction ps arbitrary: p) auto

lemma carried_ok_butlast: "carried_ok p (ps @ qs) \<Longrightarrow> carried_ok p ps"
  by (induction ps arbitrary: p) auto

lemma pieces_loop_carried:
  "pieces_loop t ov ss fin car fr n = (fin', car', fr', n') \<Longrightarrow>
     carried_ok [] (fin @ [(car, fr)]) \<Longrightarrow> carried_ok [] (fin' @ [(car', fr')])"
proof (induction ss arbitrary: fin car fr n)
  case Nil
  then show ?case by simp
next
  case (Cons s ss)
  show ?case
  proof (cases "n + int (length (split_ws s)) > t \<and> car @ fr \<noteq> []")
    case True
    obtain os oc where o: "overlap_loop ov (rev (car @ fr)) [] 0 = (os, oc)"
      by (cases "overlap_loop ov (rev (car @ fr)) [] 0")
    from Cons.prems(1) True o
    have step: "pieces_loop t ov ss (fin @ [(car, fr)]) os [s] (oc + int (length (split_ws s)))
            = (fin', car', fr', n')"
      by (simp add: Let_def)
    have "suffix os (car @ fr)" by (rule overlap_loop_is_suffix[OF o])
    with Cons.prems(2) have "carried_ok [] ((fin @ [(car, fr)]) @ [(os, [s])])"
      by (simp add: carried_ok_snoc)
    from Cons.IH[OF step this] show ?thesis .
  next
    case False
    with Cons.prems(1)
    have step: "pieces_loop t ov ss fin car (fr @ [s]) (n + int (length (split_ws s)))
            = (fin', car', fr', n')"
      by (auto simp: Let_def)
    from Cons.prems(2) have "carried_ok [] (fin @ [(car, fr @ [s])])"
      by (rule carried_ok_fresh)
    from Cons.IH[OF step this] show ?thesis .
  qed
qed

text \<open>
  C3.  Sentence-aware chunking keeps every word of the text, in order.  Every chunk is the
  sentences carried over from the chunk before it (a suffix of that chunk's sentences,
  none for the first chunk) followed by fresh sentences, joined by single spaces; and the
  words of the fresh parts, chunk after chunk, are the words of the text.  Two texts with
  the same words are equal up to whitespace normalization.  This holds for every text,
  \<open>target_size\<close> and \<open>overlap\<close>, in particular for \<open>0 < overlap < target_size\<close>.
\<close>

theorem chunk_by_sentences_reconstructs:
  "chunk_by_sentences text target_size overlap =
     map (\<lambda>(carried, fresh). join '' '' (carried @ fresh))
       (chunk_pieces target_size overlap (clean_sentences text))
   \<and> carried_ok [] (chunk_pieces target_size overlap (clean_sentences text))
   \<and> concat (map (\<lambda>(carried, fresh). split_ws (join '' '' fresh))
        (chunk_pieces target_size overlap (clean_sentences text))) = split_ws text"
proof -
  let ?ss = "clean_sentences text"
  obtain fin car fr n where p: "pieces_loop target_size overlap ?ss [] [] [] 0 = (fin, car, fr, n)"
    by (cases "pieces_loop target_size overlap ?ss [] [] [] 0")
  have s: "sentences_loop target_size overlap ?ss [] [] 0 = (map chunk_of fin, car @ fr, n)"
    using sentences_loop_pieces[of target_size overlap ?ss "[]" "[]" "[]" 0] p by simp
  have cp: "chunk_pieces target_size overlap ?ss = (if car @ fr \<noteq> [] then fin @ [(car, fr)] else fin)"
    by (simp add: chunk_pieces_def p)
  have fresh: "concat (map snd fin) @ fr = ?ss"
    using pieces_loop_fresh[OF p] by simp
  have ok: "carried_ok [] (fin @ [(car, fr)])"
    using pieces_loop_carried[OF p] by simp
  have lam: "(\<lambda>(carried, fresh). join '' '' (carried @ fresh)) = chunk_of"
    by (simp add: fun_eq_iff)
  have one: "chunk_by_sentences text target_size overlap = map chunk_of (chunk_pieces target_size overlap ?ss)"
  proof (cases "?ss = []")
    case True
    then have "split_ws text = []" using clean_sentences_words[of "text"] by simp
    then have "strip text = []" by (simp add: strip_Nil_iff)
    then show ?thesis using True by (simp add: chunk_by_sentences_def chunk_pieces_def)
  next
    case False
    then show ?thesis by (simp add: chunk_by_sentences_def s cp)
  qed
  have two: "carried_ok [] (chunk_pieces target_size overlap ?ss)"
    using ok carried_ok_butlast[OF ok] by (simp add: cp)
  have "concat (map (\<lambda>(carried, fresh). split_ws (join '' '' fresh)) ps)
          = concat (map split_ws (concat (map snd ps)))" for ps :: "(string list \<times> string list) list"
    by (induction ps) (auto simp: split_ws_join)
  then have "concat (map (\<lambda>(carried, fresh). split_ws (join '' '' fresh))
        (chunk_pieces target_size overlap ?ss)) = concat (map split_ws ?ss)"
    using fresh by (auto simp: cp)
  then have three: "concat (map (\<lambda>(carried, fresh). split_ws (join '' '' fresh))
        (chunk_pieces target_size overlap ?ss)) = split_ws text"
    by (simp add: clean_sentences_words)
  from one two three show ?thesis by (simp add: lam)
qed

end
